theory Spec2Isabelle
  imports Main "HOL-Library.AList"
begin

section \<open>The checkpoint scanner of \<^verbatim>\<open>src/cloud/run.ipynb\<close>\<close>

text \<open>
  The last cell of the notebook defines \<^verbatim>\<open>analyze_all_checkpoints\<close>: it globs a
  directory for \<^verbatim>\<open>*_checkpoint.pkl\<close>, unpickles every match, reads the fields
  \<^verbatim>\<open>stage\<close> and \<^verbatim>\<open>firm_name\<close> with the default \<^verbatim>\<open>'Unknown'\<close>, tallies the records
  per stage in two dictionaries, prints a report and returns \<^verbatim>\<open>firms_by_stage\<close>.
  The model below follows the cell line by line. Exceptions are values of a sum type,
  the two dictionaries are association lists in insertion order (what a Python dict
  iterates in), and the printed lines are part of the result.
\<close>

subsection \<open>Python values, errors, files\<close>

text \<open>
  The exceptions the cell can raise: \<open>OSError\<close> for whatever \<^verbatim>\<open>open\<close> raises,
  \<open>UnpicklingError\<close> for whatever \<^verbatim>\<open>pickle.load\<close> raises on bytes that are no pickle,
  \<open>AttributeError\<close> for \<^verbatim>\<open>.get\<close> on an object without it, \<open>KeyError\<close> for a
  subscript with an absent key. Nothing in the cell catches any of them.
\<close>

datatype py_error = OSError | UnpicklingError | AttributeError | KeyError

text \<open>The Python values the function can hand back to its caller.\<close>

datatype pyval =
    PyStr string
  | PyInt int
  | PyList "pyval list"
  | PyTuple "pyval list"
  | PyDict "(pyval \<times> pyval) list"

text \<open>
  What \<^verbatim>\<open>pickle.load\<close> yields on a readable pickle: a dict with string keys and string
  values (the two fields the scanner consumes are strings), or some object that has no
  \<^verbatim>\<open>get\<close> method.
\<close>

datatype pyobj = Dict "(string \<times> string) list" | NonDict

text \<open>
  A directory entry as the scanner meets it: something \<^verbatim>\<open>open(_, 'rb')\<close> refuses (a
  subdirectory, no permission), bytes that \<^verbatim>\<open>pickle.load\<close> rejects, or a pickle of
  an object.
\<close>

datatype entry = Unopenable | Corrupt | Pickled pyobj

datatype node = RegularFile | Dir "(string \<times> entry) list"

type_synonym filesystem = "string \<Rightarrow> node option"

subsection \<open>\<^verbatim>\<open>Path(checkpoint_dir).glob("*_checkpoint.pkl")\<close>\<close>

definition endswith :: "string \<Rightarrow> string \<Rightarrow> bool" where
  "endswith name suffix \<longleftrightarrow>
     length suffix \<le> length name \<and> drop (length name - length suffix) name = suffix"

text \<open>\<^verbatim>\<open>fnmatch\<close> of a name against \<^verbatim>\<open>*_checkpoint.pkl\<close>: the star takes any prefix,
  the empty one too.\<close>

definition fnmatch_checkpoint :: "string \<Rightarrow> bool" where
  "fnmatch_checkpoint name \<longleftrightarrow> endswith name ''_checkpoint.pkl''"

text \<open>
  \<^verbatim>\<open>pathlib\<close>'s glob yields the matching entries in directory-listing order, and
  nothing at all (no exception) when the path is not a directory, be it a regular
  file or missing.
\<close>

definition glob :: "filesystem \<Rightarrow> string \<Rightarrow> (string \<times> entry) list" where
  "glob fs checkpoint_dir =
     (case fs checkpoint_dir of
        Some (Dir listing) \<Rightarrow> filter (\<lambda>(name, f). fnmatch_checkpoint name) listing
      | Some RegularFile \<Rightarrow> []
      | None \<Rightarrow> [])"

subsection \<open>The loop body\<close>

fun open_rb :: "entry \<Rightarrow> py_error + entry" where
  "open_rb Unopenable = Inl OSError"
| "open_rb f = Inr f"

fun pickle_load :: "entry \<Rightarrow> py_error + pyobj" where
  "pickle_load (Pickled obj) = Inr obj"
| "pickle_load f = Inl UnpicklingError"

text \<open>\<^verbatim>\<open>cp_data.get(key, default)\<close>\<close>

fun get :: "pyobj \<Rightarrow> string \<Rightarrow> string \<Rightarrow> py_error + string" where
  "get (Dict d) key dflt =
     Inr (case map_of d key of None \<Rightarrow> dflt | Some v \<Rightarrow> v)"
| "get NonDict key dflt = Inl AttributeError"

text \<open>Lines 178 to 181: open the file, unpickle it, read the two fields.\<close>

definition read_fields :: "entry \<Rightarrow> py_error + string \<times> string" where
  "read_fields cp_file =
     (case open_rb cp_file of
        Inl e \<Rightarrow> Inl e
      | Inr f \<Rightarrow>
         (case pickle_load f of
            Inl e \<Rightarrow> Inl e
          | Inr cp_data \<Rightarrow>
             (case get cp_data ''stage'' ''Unknown'' of
                Inl e \<Rightarrow> Inl e
              | Inr stage \<Rightarrow>
                 (case get cp_data ''firm_name'' ''Unknown'' of
                    Inl e \<Rightarrow> Inl e
                  | Inr firm \<Rightarrow> Inr (stage, firm)))))"

type_synonym counts = "(string \<times> int) list"
type_synonym firms = "(string \<times> string list) list"

text \<open>
  Lines 183 to 186. Assigning to a key keeps the key's place in the dict or appends a
  new key (\<open>AList.update\<close>); the subscript of line 186 raises \<^verbatim>\<open>KeyError\<close> on a key
  that is absent.
\<close>

definition accumulate :: "string \<Rightarrow> string \<Rightarrow> counts \<times> firms \<Rightarrow> py_error + counts \<times> firms" where
  "accumulate stage firm st =
     (case st of (stage_counts, firms_by_stage) \<Rightarrow>
        let stage_counts' =
              AList.update stage
                ((case map_of stage_counts stage of None \<Rightarrow> 0 | Some c \<Rightarrow> c) + 1) stage_counts;
            firms_by_stage' =
              (if map_of firms_by_stage stage = None
               then AList.update stage [] firms_by_stage else firms_by_stage)
        in (case map_of firms_by_stage' stage of
              None \<Rightarrow> Inl KeyError
            | Some l \<Rightarrow> Inr (stage_counts', AList.update stage (l @ [firm]) firms_by_stage')))"

definition process_checkpoint :: "entry \<Rightarrow> counts \<times> firms \<Rightarrow> py_error + counts \<times> firms" where
  "process_checkpoint cp_file st =
     (case read_fields cp_file of
        Inl e \<Rightarrow> Inl e
      | Inr (stage, firm) \<Rightarrow> accumulate stage firm st)"

subsection \<open>The loop and the report\<close>

text \<open>The \<^verbatim>\<open>for\<close> loop of line 177: the first exception ends it.\<close>

fun scan :: "(string \<times> entry) list \<Rightarrow> counts \<times> firms \<Rightarrow> py_error + counts \<times> firms" where
  "scan [] st = Inr st"
| "scan (cp # rest) st =
     (case process_checkpoint (snd cp) st of
        Inl e \<Rightarrow> Inl e
      | Inr st' \<Rightarrow> scan rest st')"

text \<open>The two dictionaries as they stand when the loop is over (line 187).\<close>

definition aggregate :: "filesystem \<Rightarrow> string \<Rightarrow> py_error + counts \<times> firms" where
  "aggregate fs checkpoint_dir = scan (glob fs checkpoint_dir) ([], [])"

text \<open>Decimal rendering of an integer, as an f-string does it.\<close>

fun str_nat :: "nat \<Rightarrow> string" where
  "str_nat n =
     (if n < 10 then [''0123456789'' ! n]
      else str_nat (n div 10) @ [''0123456789'' ! (n mod 10)])"

definition str_int :: "int \<Rightarrow> string" where
  "str_int i = (if i < 0 then CHR ''-'' # str_nat (nat (- i)) else str_nat (nat i))"

text \<open>The strings handed to \<^verbatim>\<open>print\<close>, lines 188 to 192, one per call.\<close>

definition report :: "nat \<Rightarrow> counts \<Rightarrow> string list" where
  "report n stage_counts =
     [''Checkpoint Analysis:'',
      ''Total checkpoints: '' @ str_int (int n),
      CHR 0x0A # ''Breakdown by stage:'']
     @ map (\<lambda>(stage, count). ''  - '' @ stage @ '': '' @ str_int count @ '' firms'')
         stage_counts"

text \<open>The dict \<^verbatim>\<open>firms_by_stage\<close> and the dict \<^verbatim>\<open>stage_counts\<close> as Python values.\<close>

definition py_firms :: "firms \<Rightarrow> pyval" where
  "py_firms firms_by_stage =
     PyDict (map (\<lambda>(stage, l). (PyStr stage, PyList (map PyStr l))) firms_by_stage)"

definition py_counts :: "counts \<Rightarrow> pyval" where
  "py_counts stage_counts =
     PyDict (map (\<lambda>(stage, count). (PyStr stage, PyInt count)) stage_counts)"

record outcome =
  printed :: "string list"
  returned :: pyval

definition analyze_all_checkpoints :: "filesystem \<Rightarrow> string \<Rightarrow> py_error + outcome" where
  "analyze_all_checkpoints fs checkpoint_dir =
     (let checkpoints = glob fs checkpoint_dir in
      case scan checkpoints ([], []) of
        Inl e \<Rightarrow> Inl e
      | Inr (stage_counts, firms_by_stage) \<Rightarrow>
          Inr \<lparr>printed = report (length checkpoints) stage_counts,
               returned = py_firms firms_by_stage\<rparr>)"

text \<open>The default argument of line 167, which the call of line 197 takes.\<close>

definition default_checkpoint_dir :: string where
  "default_checkpoint_dir = ''/content/drive/MyDrive/ColabCheckpoints''"

subsection \<open>A call as a step of the notebook's state\<close>



subsection \<open>Reading the result\<close>

text \<open>
  The (stage, firm) pairs of the matched files that parse, in listing order: what
  \<open>read_fields\<close> yields on each file it does not raise on.
\<close>

definition parsed :: "(string \<times> entry) list \<Rightarrow> (string \<times> string) list" where
  "parsed cps =
     concat (map (\<lambda>cp. case read_fields (snd cp) of Inl e \<Rightarrow> [] | Inr p \<Rightarrow> [p]) cps)"

text \<open>
  The values one subscript inside a Python value: the items of a list or a tuple, the
  values of a dict. A returned value \<open>carries\<close> a value when it is that value or holds
  it as such an item.
\<close>

fun py_items :: "pyval \<Rightarrow> pyval list" where
  "py_items (PyList vs) = vs"
| "py_items (PyTuple vs) = vs"
| "py_items (PyDict kvs) = map snd kvs"
| "py_items (PyStr s) = []"
| "py_items (PyInt i) = []"

definition carries :: "pyval \<Rightarrow> pyval \<Rightarrow> bool" where
  "carries v w \<longleftrightarrow> v = w \<or> w \<in> set (py_items v)"

subsection \<open>The Stage Summary of the specification\<close>

text \<open>
  The specification's data model, in its own words: a Stage Summary is a mapping from
  stage name to the count of records in that stage, plus a mapping from stage name to
  the ordered sequence of firm names found in that stage. The three definitions below
  say so for a list of (stage, firm) records, with the stages in order of first
  appearance; they are compared with the loop of the source further down.
\<close>

definition summary_stages :: "(string \<times> string) list \<Rightarrow> string list" where
  "summary_stages ps = rev (remdups (rev (map fst ps)))"

definition summary_counts :: "(string \<times> string) list \<Rightarrow> counts" where
  "summary_counts ps =
     map (\<lambda>s. (s, int (length (filter (\<lambda>p. fst p = s) ps)))) (summary_stages ps)"

definition summary_firms :: "(string \<times> string) list \<Rightarrow> firms" where
  "summary_firms ps =
     map (\<lambda>s. (s, map snd (filter (\<lambda>p. fst p = s) ps))) (summary_stages ps)"

section \<open>Properties of the loop\<close>

subsection \<open>Association lists built from a list of keys\<close>

lemma update_graph:
  "distinct ks \<Longrightarrow>
   AList.update k v (map (\<lambda>x. (x, F x)) ks) =
     (if k \<in> set ks then map (\<lambda>x. (x, if x = k then v else F x)) ks
      else map (\<lambda>x. (x, F x)) ks @ [(k, v)])"
  by (induction ks) auto

lemma map_of_graph:
  "map_of (map (\<lambda>x. (x, F x)) ks) k = (if k \<in> set ks then Some (F k) else None)"
  by (induction ks) auto

lemma summary_stages_set: "set (summary_stages ps) = fst ` set ps"
  by (simp add: summary_stages_def)

lemma summary_stages_distinct: "distinct (summary_stages ps)"
  by (simp add: summary_stages_def)

lemma summary_stages_snoc:
  "summary_stages (ps @ [p]) =
     (if fst p \<in> fst ` set ps then summary_stages ps else summary_stages ps @ [fst p])"
  by (simp add: summary_stages_def)

lemma filter_stage_absent: "s \<notin> fst ` set ps \<Longrightarrow> filter (\<lambda>p. fst p = s) ps = []"
  by (auto simp: filter_empty_conv)

lemma summary_counts_snoc:
  "summary_counts (ps @ [(s, f)]) =
     AList.update s ((case map_of (summary_counts ps) s of None \<Rightarrow> 0 | Some c \<Rightarrow> c) + 1)
       (summary_counts ps)"
  by (auto simp: summary_counts_def summary_stages_snoc update_graph summary_stages_distinct
        map_of_graph summary_stages_set filter_stage_absent)

lemma summary_firms_snoc_old:
  "s \<in> fst ` set ps \<Longrightarrow>
   summary_firms (ps @ [(s, f)]) =
     AList.update s (map snd (filter (\<lambda>p. fst p = s) ps) @ [f]) (summary_firms ps)"
  by (auto simp: summary_firms_def summary_stages_snoc update_graph summary_stages_distinct
        summary_stages_set)

lemma summary_firms_snoc_new:
  "s \<notin> fst ` set ps \<Longrightarrow> summary_firms (ps @ [(s, f)]) = summary_firms ps @ [(s, [f])]"
  by (auto simp: summary_firms_def summary_stages_snoc summary_stages_set filter_stage_absent)

lemma map_of_summary_firms:
  "map_of (summary_firms ps) s =
     (if s \<in> fst ` set ps then Some (map snd (filter (\<lambda>p. fst p = s) ps)) else None)"
  by (simp add: summary_firms_def map_of_graph summary_stages_set)

lemma map_of_summary_counts:
  "map_of (summary_counts ps) s =
     (if s \<in> fst ` set ps then Some (int (length (filter (\<lambda>p. fst p = s) ps))) else None)"
  by (simp add: summary_counts_def map_of_graph summary_stages_set)

lemma update_append_absent:
  "k \<notin> fst ` set al \<Longrightarrow> AList.update k v (al @ [(k, w)]) = al @ [(k, v)]"
  by (induction al) auto

lemma update_absent:
  "k \<notin> fst ` set al \<Longrightarrow> AList.update k v al = al @ [(k, v)]"
  by (induction al) auto

lemma summary_firms_keys: "fst ` set (summary_firms ps) = fst ` set ps"
  by (force simp: summary_firms_def summary_stages_set)

lemma accumulate_summary:
  "accumulate s f (summary_counts ps, summary_firms ps) =
     Inr (summary_counts (ps @ [(s, f)]), summary_firms (ps @ [(s, f)]))"
proof (cases "s \<in> fst ` set ps")
  case True
  then show ?thesis
    by (simp add: accumulate_def summary_counts_snoc summary_firms_snoc_old map_of_summary_firms)
next
  case False
  then have absent: "s \<notin> fst ` set (summary_firms ps)"
    by (simp add: summary_firms_keys)
  have none: "map_of (summary_firms ps) s = None"
    using False by (simp add: map_of_summary_firms)
  have look: "map_of (AList.update s [] (summary_firms ps)) s = Some []"
    by (simp add: AList.update_conv')
  have upd: "AList.update s ([] @ [f]) (AList.update s [] (summary_firms ps)) =
               summary_firms (ps @ [(s, f)])"
    using False absent by (simp add: summary_firms_snoc_new update_absent update_append_absent)
  show ?thesis
    unfolding accumulate_def using none look upd
    by (simp add: summary_counts_snoc del: AList.update_last)
qed

lemma parsed_Cons_Inr:
  "read_fields (snd cp) = Inr p \<Longrightarrow> parsed (cp # cps) = p # parsed cps"
  by (simp add: parsed_def)

lemma scan_summary:
  "\<forall>cp\<in>set cps. \<not> isl (read_fields (snd cp)) \<Longrightarrow>
   scan cps (summary_counts ps, summary_firms ps) =
     Inr (summary_counts (ps @ parsed cps), summary_firms (ps @ parsed cps))"
proof (induction cps arbitrary: ps)
  case Nil
  then show ?case by (simp add: parsed_def)
next
  case (Cons cp cps)
  from Cons.prems obtain s f where rf: "read_fields (snd cp) = Inr (s, f)"
    by (cases "read_fields (snd cp)") auto
  from Cons.prems have rest: "\<forall>cp\<in>set cps. \<not> isl (read_fields (snd cp))"
    by simp
  show ?case
    using Cons.IH [OF rest, of "ps @ [(s, f)]"] rf
    by (simp add: process_checkpoint_def accumulate_summary parsed_Cons_Inr)
qed

lemma scan_completed:
  "scan cps st = Inr st' \<Longrightarrow> \<forall>cp\<in>set cps. \<not> isl (read_fields (snd cp))"
proof (induction cps arbitrary: st)
  case Nil
  then show ?case by simp
next
  case (Cons cp cps)
  then show ?case
    by (auto simp: process_checkpoint_def split: sum.splits)
qed

lemma parsed_length:
  "\<forall>cp\<in>set cps. \<not> isl (read_fields (snd cp)) \<Longrightarrow> length (parsed cps) = length cps"
  by (induction cps) (auto simp: parsed_def split: sum.splits)

lemma aggregate_summary:
  assumes "aggregate fs d = Inr (stage_counts, firms_by_stage)"
  shows "stage_counts = summary_counts (parsed (glob fs d))"
    and "firms_by_stage = summary_firms (parsed (glob fs d))"
    and "length (parsed (glob fs d)) = length (glob fs d)"
proof -
  have ok: "\<forall>cp\<in>set (glob fs d). \<not> isl (read_fields (snd cp))"
    using assms scan_completed unfolding aggregate_def by blast
  have "scan (glob fs d) (summary_counts [], summary_firms []) =
          Inr (summary_counts ([] @ parsed (glob fs d)), summary_firms ([] @ parsed (glob fs d)))"
    using ok by (rule scan_summary)
  then have "aggregate fs d =
          Inr (summary_counts (parsed (glob fs d)), summary_firms (parsed (glob fs d)))"
    by (simp add: aggregate_def summary_counts_def summary_firms_def summary_stages_def)
  with assms show "stage_counts = summary_counts (parsed (glob fs d))"
    and "firms_by_stage = summary_firms (parsed (glob fs d))" by simp_all
  show "length (parsed (glob fs d)) = length (glob fs d)"
    using ok by (rule parsed_length)
qed

lemma report_empty:
  "report 0 [] =
     [''Checkpoint Analysis:'', ''Total checkpoints: 0'', CHR 0x0A # ''Breakdown by stage:'']"
  by (simp add: report_def str_int_def)

subsection \<open>Errors end the loop; the report\<close>

lemma accumulate_Inr: "\<exists>st'. accumulate stage firm st = Inr st'"
  by (cases st) (simp add: accumulate_def AList.update_conv' split: option.splits)

lemma process_checkpoint_Inl:
  "read_fields f = Inl e \<Longrightarrow> process_checkpoint f st = Inl e"
  by (simp add: process_checkpoint_def)

lemma process_checkpoint_Inr:
  "\<not> isl (read_fields f) \<Longrightarrow> \<exists>st'. process_checkpoint f st = Inr st'"
proof -
  assume "\<not> isl (read_fields f)"
  then obtain stage firm where "read_fields f = Inr (stage, firm)"
    by (cases "read_fields f") auto
  then show ?thesis
    using accumulate_Inr [of stage firm st] by (simp add: process_checkpoint_def)
qed

lemma scan_abort:
  "read_fields (snd cp) = Inl e \<Longrightarrow> isl (scan (pre @ cp # post) st)"
  by (induction pre arbitrary: st) (auto simp: process_checkpoint_Inl split: sum.splits)

lemma scan_abort_first:
  "\<forall>c\<in>set pre. \<not> isl (read_fields (snd c)) \<Longrightarrow> read_fields (snd cp) = Inl e \<Longrightarrow>
   scan (pre @ cp # post) st = Inl e"
proof (induction pre arbitrary: st)
  case Nil
  then show ?case by (simp add: process_checkpoint_Inl)
next
  case (Cons c pre)
  then obtain st' where "process_checkpoint (snd c) st = Inr st'"
    using process_checkpoint_Inr [of "snd c" st] by auto
  with Cons show ?case by simp
qed

lemma analyze_aggregate:
  "analyze_all_checkpoints fs d =
     (case aggregate fs d of
        Inl e \<Rightarrow> Inl e
      | Inr st \<Rightarrow> Inr \<lparr>printed = report (length (glob fs d)) (fst st),
                        returned = py_firms (snd st)\<rparr>)"
  by (simp add: analyze_all_checkpoints_def aggregate_def split: sum.splits prod.splits)

lemma analyze_Inr:
  assumes "analyze_all_checkpoints fs d = Inr r"
  obtains stage_counts firms_by_stage where
    "aggregate fs d = Inr (stage_counts, firms_by_stage)"
    "printed r = report (length (glob fs d)) stage_counts"
    "returned r = py_firms firms_by_stage"
  using assms by (auto simp: analyze_aggregate split: sum.splits)

lemma read_fields_Corrupt: "read_fields Corrupt = Inl UnpicklingError"
  by (simp add: read_fields_def)

lemma aggregate_complete:
  assumes "\<forall>cp\<in>set (glob fs d). \<not> isl (read_fields (snd cp))"
  shows "aggregate fs d =
           Inr (summary_counts (parsed (glob fs d)), summary_firms (parsed (glob fs d)))"
proof -
  have "scan (glob fs d) (summary_counts [], summary_firms []) =
          Inr (summary_counts ([] @ parsed (glob fs d)), summary_firms ([] @ parsed (glob fs d)))"
    using assms by (rule scan_summary)
  then show ?thesis
    by (simp add: aggregate_def summary_counts_def summary_firms_def summary_stages_def)
qed

subsection \<open>The loop computes the Stage Summary\<close>

lemma summary_keys_agree: "map fst (summary_counts ps) = map fst (summary_firms ps)"
  by (simp add: summary_counts_def summary_firms_def comp_def)

lemma sum_update:
  "sum_list (map snd (AList.update k v al)) =
     sum_list (map snd al) - (case map_of al k of None \<Rightarrow> 0 | Some c \<Rightarrow> c) + (v :: int)"
  by (induction al) auto

lemma summary_counts_sum: "sum_list (map snd (summary_counts ps)) = int (length ps)"
proof (induction ps rule: rev_induct)
  case Nil
  then show ?case by (simp add: summary_counts_def summary_stages_def)
next
  case (snoc p ps)
  obtain s f where p: "p = (s, f)" by (cases p)
  show ?case
    unfolding p summary_counts_snoc sum_update using snoc.IH by simp
qed

lemma report_total: "report n stage_counts ! 1 = ''Total checkpoints: '' @ str_int (int n)"
  by (simp add: report_def)




lemma summary_firms_nonempty: "(s, l) \<in> set (summary_firms ps) \<Longrightarrow> l \<noteq> []"
  by (force simp: summary_firms_def summary_stages_set filter_empty_conv)

lemma summary_counts_positive: "(s, c) \<in> set (summary_counts ps) \<Longrightarrow> 0 < c"
  by (force simp: summary_counts_def summary_stages_set filter_empty_conv)

lemma parsed_map:
  "\<forall>cp\<in>set cps. \<not> isl (read_fields (snd cp)) \<Longrightarrow>
   parsed cps = map (\<lambda>cp. projr (read_fields (snd cp))) cps"
  by (induction cps) (auto simp: parsed_def split: sum.splits)

lemma filter_twice:
  assumes "i < j" "j < length xs" "xs ! i = x" "xs ! j = x"
  shows "2 \<le> length (filter (\<lambda>p. p = x) xs)"
proof -
  have "x \<in> set (take j xs)"
    using assms by (auto simp: in_set_conv_nth intro!: exI [of _ i])
  then have a: "0 < length (filter (\<lambda>p. p = x) (take j xs))"
    by (simp add: filter_empty_conv)
  have "x \<in> set (drop j xs)"
    using assms by (auto simp: in_set_conv_nth intro!: exI [of _ 0])
  then have b: "0 < length (filter (\<lambda>p. p = x) (drop j xs))"
    by (simp add: filter_empty_conv)
  have "length (filter (\<lambda>p. p = x) xs) =
          length (filter (\<lambda>p. p = x) (take j xs)) + length (filter (\<lambda>p. p = x) (drop j xs))"
    by (metis append_take_drop_id filter_append length_append)
  with a b show ?thesis by linarith
qed

lemma count_list_grouped:
  "count_list (map snd (filter (\<lambda>p. fst p = s) ps)) f = length (filter (\<lambda>p. p = (s, f)) ps)"
  by (induction ps) auto

subsection \<open>One iteration; one call\<close>






section \<open>The claims\<close>

subsection \<open>C1: a directory that does not exist\<close>

text \<open>
  Claim C1, as amended. The specification wants a missing directory to fail with a
  NotFound error. The code has no such check: \<^verbatim>\<open>Path.glob\<close> on a path that does not
  exist yields nothing, so the loop body never runs. For every directory path that does
  not exist the scan completes, prints a total of 0 with an empty breakdown and returns
  an empty \<^verbatim>\<open>firms_by_stage\<close>, exactly what it does for an existing directory with no
  matching file.
\<close>

theorem C1_missing_directory_scans_as_empty:
  assumes "fs checkpoint_dir = None"
  shows "analyze_all_checkpoints fs checkpoint_dir =
           Inr \<lparr>printed = [''Checkpoint Analysis:'', ''Total checkpoints: 0'',
                            CHR 0x0A # ''Breakdown by stage:''],
                returned = PyDict []\<rparr>"
  using assms by (simp add: analyze_all_checkpoints_def glob_def report_empty py_firms_def)

text \<open>The default directory, on a filesystem where only \<^verbatim>\<open>/data\<close> exists.\<close>

theorem C1_missing_directory_witness:
  "analyze_all_checkpoints
     [''/data'' \<mapsto> Dir [(''acme_checkpoint.pkl'', Pickled (Dict [(''stage'', ''embedding'')]))]]
     default_checkpoint_dir =
   Inr \<lparr>printed = [''Checkpoint Analysis:'', ''Total checkpoints: 0'',
                    CHR 0x0A # ''Breakdown by stage:''],
        returned = PyDict []\<rparr>"
  by (rule C1_missing_directory_scans_as_empty) (simp add: default_checkpoint_dir_def)

text \<open>
  The claim as the specification states it fails on the empty filesystem: the path does
  not exist, yet the call raises nothing and the second printed line reports zero
  checkpoints.
\<close>

theorem C1_missing_directory_counterexample:
  "Map.empty ''/content/drive/MyDrive/ColabCheckpoints'' = (None :: node option) \<and>
   \<not> isl (analyze_all_checkpoints Map.empty ''/content/drive/MyDrive/ColabCheckpoints'') \<and>
   printed (projr (analyze_all_checkpoints Map.empty ''/content/drive/MyDrive/ColabCheckpoints''))
     ! 1 = ''Total checkpoints: 0''"
  by (simp add: analyze_all_checkpoints_def glob_def report_empty)

subsection \<open>C7: a directory without checkpoint files\<close>

text \<open>
  Claim C7. For every directory that exists and lists no name matching
  \<^verbatim>\<open>*_checkpoint.pkl\<close>, the scan raises nothing: it prints a total of zero and no
  stage line, both dictionaries are empty when the loop is over, and the returned
  \<^verbatim>\<open>firms_by_stage\<close> is the empty dict.
\<close>

theorem C7_no_matching_files:
  assumes "fs checkpoint_dir = Some (Dir listing)"
    and "\<forall>e\<in>set listing. \<not> fnmatch_checkpoint (fst e)"
  shows "analyze_all_checkpoints fs checkpoint_dir =
           Inr \<lparr>printed = [''Checkpoint Analysis:'', ''Total checkpoints: 0'',
                            CHR 0x0A # ''Breakdown by stage:''],
                returned = PyDict []\<rparr> \<and>
         aggregate fs checkpoint_dir = Inr ([], [])"
proof -
  have "filter (\<lambda>(name, f). fnmatch_checkpoint name) listing = []"
    using assms(2) by (auto simp: filter_empty_conv)
  then have "glob fs checkpoint_dir = []"
    using assms(1) by (simp add: glob_def)
  then show ?thesis
    by (simp add: analyze_all_checkpoints_def aggregate_def report_empty py_firms_def)
qed

text \<open>Three entries, none of which ends in \<^verbatim>\<open>_checkpoint.pkl\<close>.\<close>

theorem C7_no_matching_files_witness:
  "analyze_all_checkpoints
     [''/ckpt'' \<mapsto> Dir [(''notes.txt'', Corrupt), (''acme_checkpoint.pkl.bak'', Unopenable),
                        (''checkpoint.pkl'', Pickled NonDict)]] ''/ckpt'' =
     Inr \<lparr>printed = [''Checkpoint Analysis:'', ''Total checkpoints: 0'',
                      CHR 0x0A # ''Breakdown by stage:''],
          returned = PyDict []\<rparr> \<and>
   aggregate
     [''/ckpt'' \<mapsto> Dir [(''notes.txt'', Corrupt), (''acme_checkpoint.pkl.bak'', Unopenable),
                        (''checkpoint.pkl'', Pickled NonDict)]] ''/ckpt'' = Inr ([], [])"
  by (rule C7_no_matching_files [where listing =
        "[(''notes.txt'', Corrupt), (''acme_checkpoint.pkl.bak'', Unopenable),
          (''checkpoint.pkl'', Pickled NonDict)]"])
     (simp_all add: fnmatch_checkpoint_def endswith_def)

subsection \<open>C2: a checkpoint file that does not unpickle\<close>

text \<open>
  Claim C2, as amended. The specification wants a file that fails to deserialize to be
  skipped while the rest is scanned. The loop has no \<^verbatim>\<open>try\<close>: the exception of
  \<^verbatim>\<open>pickle.load\<close> leaves the function. For every directory in which a matching file
  fails to deserialize, the scan aborts with an exception, so that no file listed after
  it is processed, nothing is printed and no summary is returned; when the files listed
  before it all load as dict records, the exception is that file's unpickling error.
\<close>

theorem C2_corrupt_file_aborts_scan:
  assumes "glob fs checkpoint_dir = pre @ (name, Corrupt) # post"
  shows "isl (analyze_all_checkpoints fs checkpoint_dir) \<and>
         ((\<forall>cp\<in>set pre. \<not> isl (read_fields (snd cp))) \<longrightarrow>
            analyze_all_checkpoints fs checkpoint_dir = Inl UnpicklingError)"
proof -
  have rf: "read_fields (snd (name, Corrupt)) = Inl UnpicklingError"
    by (simp add: read_fields_Corrupt)
  have "isl (aggregate fs checkpoint_dir)"
    unfolding aggregate_def assms using rf by (rule scan_abort)
  then have first: "isl (analyze_all_checkpoints fs checkpoint_dir)"
    by (cases "aggregate fs checkpoint_dir") (simp_all add: analyze_aggregate)
  have "aggregate fs checkpoint_dir = Inl UnpicklingError"
    if "\<forall>cp\<in>set pre. \<not> isl (read_fields (snd cp))"
    unfolding aggregate_def assms using that rf by (rule scan_abort_first)
  then show ?thesis
    using first by (simp add: analyze_aggregate)
qed

text \<open>One record, then the corrupt file, then another record.\<close>

theorem C2_corrupt_file_witness:
  "analyze_all_checkpoints
     [''/ckpt'' \<mapsto> Dir
        [(''a_checkpoint.pkl'', Pickled (Dict [(''stage'', ''embedding''), (''firm_name'', ''Acme'')])),
         (''readme.md'', Unopenable),
         (''b_checkpoint.pkl'', Corrupt),
         (''c_checkpoint.pkl'', Pickled (Dict [(''stage'', ''embedding''), (''firm_name'', ''Initech'')]))]]
     ''/ckpt'' = Inl UnpicklingError"
proof -
  let ?a = "(''a_checkpoint.pkl'', Pickled (Dict [(''stage'', ''embedding''), (''firm_name'', ''Acme'')]))"
  let ?c = "(''c_checkpoint.pkl'', Pickled (Dict [(''stage'', ''embedding''), (''firm_name'', ''Initech'')]))"
  let ?fs = "[''/ckpt'' \<mapsto> Dir [?a, (''readme.md'', Unopenable), (''b_checkpoint.pkl'', Corrupt), ?c]]"
  have g: "glob ?fs ''/ckpt'' = [?a] @ (''b_checkpoint.pkl'', Corrupt) # [?c]"
    by (simp add: glob_def fnmatch_checkpoint_def endswith_def)
  have ok: "\<forall>cp\<in>set [?a]. \<not> isl (read_fields (snd cp))"
    by (simp add: read_fields_def)
  show ?thesis
    using C2_corrupt_file_aborts_scan [OF g] ok by blast
qed

text \<open>
  The specification's scenario, four checkpoint files of which one is corrupt: the claim
  expects a summary of the other three, the call raises instead.
\<close>

theorem C2_corrupt_file_counterexample:
  "analyze_all_checkpoints
     [''/ckpt'' \<mapsto> Dir
        [(''a_checkpoint.pkl'', Pickled (Dict [(''stage'', ''embedding''), (''firm_name'', ''Acme'')])),
         (''b_checkpoint.pkl'', Corrupt),
         (''c_checkpoint.pkl'', Pickled (Dict [(''stage'', ''topic_modeling''), (''firm_name'', ''Globex'')])),
         (''d_checkpoint.pkl'', Pickled (Dict [(''stage'', ''topic_modeling''), (''firm_name'', ''Initech'')]))]]
     ''/ckpt'' = Inl UnpicklingError"
  by (simp add: analyze_all_checkpoints_def glob_def fnmatch_checkpoint_def endswith_def
        process_checkpoint_def read_fields_def accumulate_def)

subsection \<open>C3: what the caller gets back\<close>

text \<open>
  Claim C3, as amended. The specification has the scan return the whole Stage Summary,
  counts and firm lists. Line 194 returns \<^verbatim>\<open>firms_by_stage\<close> alone; the counts only
  reach standard output. For every existing directory whose matching files all load as
  dict records, the scan returns the firm mapping of the Stage Summary and nothing else
  (each stage, in order of first appearance, with the firm names of its records in
  listing order), and prints the total and the count mapping, one line per stage.
\<close>

theorem C3_returns_firms_prints_counts:
  assumes "fs checkpoint_dir = Some (Dir listing)"
    and "\<forall>cp\<in>set (glob fs checkpoint_dir). \<not> isl (read_fields (snd cp))"
  shows "analyze_all_checkpoints fs checkpoint_dir =
           Inr \<lparr>printed = report (length (glob fs checkpoint_dir))
                             (summary_counts (parsed (glob fs checkpoint_dir))),
                returned = py_firms (summary_firms (parsed (glob fs checkpoint_dir)))\<rparr> \<and>
         aggregate fs checkpoint_dir =
           Inr (summary_counts (parsed (glob fs checkpoint_dir)),
                summary_firms (parsed (glob fs checkpoint_dir)))"
  using aggregate_complete [OF assms(2)] by (simp add: analyze_aggregate)

text \<open>The three-file scenario of the specification.\<close>

theorem C3_returns_firms_witness:
  "analyze_all_checkpoints
     [''/ckpt'' \<mapsto> Dir
        [(''a_checkpoint.pkl'', Pickled (Dict [(''stage'', ''embedding''), (''firm_name'', ''Acme'')])),
         (''b_checkpoint.pkl'', Pickled (Dict [(''stage'', ''topic_modeling''), (''firm_name'', ''Globex'')])),
         (''c_checkpoint.pkl'', Pickled (Dict [(''stage'', ''topic_modeling''), (''firm_name'', ''Initech'')]))]]
     ''/ckpt'' =
   Inr \<lparr>printed = [''Checkpoint Analysis:'', ''Total checkpoints: 3'',
                    CHR 0x0A # ''Breakdown by stage:'',
                    ''  - embedding: 1 firms'', ''  - topic_modeling: 2 firms''],
        returned = PyDict
          [(PyStr ''embedding'', PyList [PyStr ''Acme'']),
           (PyStr ''topic_modeling'', PyList [PyStr ''Globex'', PyStr ''Initech''])]\<rparr>"
proof -
  let ?l = "[(''a_checkpoint.pkl'', Pickled (Dict [(''stage'', ''embedding''), (''firm_name'', ''Acme'')])),
         (''b_checkpoint.pkl'', Pickled (Dict [(''stage'', ''topic_modeling''), (''firm_name'', ''Globex'')])),
         (''c_checkpoint.pkl'', Pickled (Dict [(''stage'', ''topic_modeling''), (''firm_name'', ''Initech'')]))]"
  let ?fs = "[''/ckpt'' \<mapsto> Dir ?l]"
  have g: "glob ?fs ''/ckpt'' = ?l"
    by (simp add: glob_def fnmatch_checkpoint_def endswith_def)
  have p: "parsed ?l = [(''embedding'', ''Acme''), (''topic_modeling'', ''Globex''),
                        (''topic_modeling'', ''Initech'')]"
    by (simp add: parsed_def read_fields_def)
  have ex: "?fs ''/ckpt'' = Some (Dir ?l)"
    by simp
  have ok: "\<forall>cp\<in>set (glob ?fs ''/ckpt''). \<not> isl (read_fields (snd cp))"
    unfolding g by (simp add: read_fields_def)
  have "analyze_all_checkpoints ?fs ''/ckpt'' =
          Inr \<lparr>printed = report (length (glob ?fs ''/ckpt''))
                            (summary_counts (parsed (glob ?fs ''/ckpt''))),
               returned = py_firms (summary_firms (parsed (glob ?fs ''/ckpt'')))\<rparr>"
    using C3_returns_firms_prints_counts [OF ex ok] by blast
  then show ?thesis
    unfolding g p
    by (simp add: summary_counts_def summary_firms_def summary_stages_def report_def
          py_firms_def str_int_def)
qed

text \<open>
  The claim as stated fails on a directory with one record: the returned dict is the
  firm mapping, and the count mapping \<^verbatim>\<open>{'embedding': 1}\<close> is neither that value nor
  an item of it. It also fails on an existing directory whose only checkpoint unpickles
  to something that is not a dict: nothing is returned at all.
\<close>

theorem C3_returns_both_counterexample:
  "analyze_all_checkpoints
     [''/ckpt'' \<mapsto> Dir
        [(''a_checkpoint.pkl'', Pickled (Dict [(''stage'', ''embedding''), (''firm_name'', ''Acme'')]))]]
     ''/ckpt'' =
     Inr \<lparr>printed = [''Checkpoint Analysis:'', ''Total checkpoints: 1'',
                      CHR 0x0A # ''Breakdown by stage:'', ''  - embedding: 1 firms''],
          returned = PyDict [(PyStr ''embedding'', PyList [PyStr ''Acme''])]\<rparr> \<and>
   aggregate
     [''/ckpt'' \<mapsto> Dir
        [(''a_checkpoint.pkl'', Pickled (Dict [(''stage'', ''embedding''), (''firm_name'', ''Acme'')]))]]
     ''/ckpt'' = Inr ([(''embedding'', 1)], [(''embedding'', [''Acme''])]) \<and>
   \<not> carries (PyDict [(PyStr ''embedding'', PyList [PyStr ''Acme''])])
       (py_counts [(''embedding'', 1)]) \<and>
   analyze_all_checkpoints
     [''/ckpt'' \<mapsto> Dir [(''b_checkpoint.pkl'', Pickled NonDict)]] ''/ckpt'' = Inl AttributeError"
  by (simp add: analyze_all_checkpoints_def aggregate_def glob_def fnmatch_checkpoint_def
        endswith_def process_checkpoint_def read_fields_def accumulate_def report_def
        py_firms_def py_counts_def carries_def str_int_def)

subsection \<open>C8: scanning an unchanged directory again\<close>



subsection \<open>C4: counts and firm lists agree\<close>

text \<open>
  Claim C4. For every scan that completes, the two dictionaries have the same stage
  keys in the same order, and for every stage key the count recorded in
  \<^verbatim>\<open>stage_counts\<close> (the one printed) is the length of that stage's list in
  \<^verbatim>\<open>firms_by_stage\<close> (the one returned).
\<close>

theorem C4_count_is_length_of_firm_list:
  assumes "analyze_all_checkpoints fs checkpoint_dir = Inr r"
  shows "\<exists>stage_counts firms_by_stage.
           aggregate fs checkpoint_dir = Inr (stage_counts, firms_by_stage) \<and>
           printed r = report (length (glob fs checkpoint_dir)) stage_counts \<and>
           returned r = py_firms firms_by_stage \<and>
           map fst stage_counts = map fst firms_by_stage \<and>
           (\<forall>stage count. map_of stage_counts stage = Some count \<longrightarrow>
              (\<exists>l. map_of firms_by_stage stage = Some l \<and> count = int (length l)))"
proof -
  from assms obtain stage_counts firms_by_stage where
    agg: "aggregate fs checkpoint_dir = Inr (stage_counts, firms_by_stage)" and
    pr: "printed r = report (length (glob fs checkpoint_dir)) stage_counts" and
    ret: "returned r = py_firms firms_by_stage"
    by (rule analyze_Inr)
  let ?ps = "parsed (glob fs checkpoint_dir)"
  have c: "stage_counts = summary_counts ?ps" and f: "firms_by_stage = summary_firms ?ps"
    using aggregate_summary [OF agg] by simp_all
  have keys: "map fst stage_counts = map fst firms_by_stage"
    unfolding c f by (rule summary_keys_agree)
  have len: "\<exists>l. map_of firms_by_stage stage = Some l \<and> count = int (length l)"
    if "map_of stage_counts stage = Some count" for stage count
    using that unfolding c f
    by (simp add: map_of_summary_counts map_of_summary_firms split: if_splits)
  show ?thesis
    using agg pr ret keys len by blast
qed

text \<open>Two records of one stage.\<close>

theorem C4_count_is_length_witness:
  "\<exists>stage_counts firms_by_stage.
     aggregate
       [''/ckpt'' \<mapsto> Dir
          [(''a_checkpoint.pkl'', Pickled (Dict [(''stage'', ''embedding''), (''firm_name'', ''Acme'')])),
           (''b_checkpoint.pkl'', Pickled (Dict [(''stage'', ''embedding''), (''firm_name'', ''Globex'')]))]]
       ''/ckpt'' = Inr (stage_counts, firms_by_stage) \<and>
     map fst stage_counts = map fst firms_by_stage \<and>
     (\<forall>stage count. map_of stage_counts stage = Some count \<longrightarrow>
        (\<exists>l. map_of firms_by_stage stage = Some l \<and> count = int (length l)))"
proof -
  let ?fs = "[''/ckpt'' \<mapsto> Dir
          [(''a_checkpoint.pkl'', Pickled (Dict [(''stage'', ''embedding''), (''firm_name'', ''Acme'')])),
           (''b_checkpoint.pkl'', Pickled (Dict [(''stage'', ''embedding''), (''firm_name'', ''Globex'')]))]]"
  have "\<exists>r. analyze_all_checkpoints ?fs ''/ckpt'' = Inr r"
    by (simp add: analyze_all_checkpoints_def glob_def fnmatch_checkpoint_def endswith_def
          process_checkpoint_def read_fields_def accumulate_def)
  then obtain r where "analyze_all_checkpoints ?fs ''/ckpt'' = Inr r" ..
  from C4_count_is_length_of_firm_list [OF this] show ?thesis by blast
qed

subsection \<open>C5: the counts add up to the total\<close>

text \<open>
  Claim C5. For every scan that completes, the per-stage counts add up to the number of
  matched files that parsed, which is the number of matched files, and the second
  printed line reports that number as the total.
\<close>

theorem C5_counts_sum_to_total:
  assumes "analyze_all_checkpoints fs checkpoint_dir = Inr r"
  shows "\<exists>stage_counts firms_by_stage.
           aggregate fs checkpoint_dir = Inr (stage_counts, firms_by_stage) \<and>
           sum_list (map snd stage_counts) = int (length (parsed (glob fs checkpoint_dir))) \<and>
           length (parsed (glob fs checkpoint_dir)) = length (glob fs checkpoint_dir) \<and>
           printed r ! 1 = ''Total checkpoints: '' @ str_int (sum_list (map snd stage_counts))"
proof -
  from assms obtain stage_counts firms_by_stage where
    agg: "aggregate fs checkpoint_dir = Inr (stage_counts, firms_by_stage)" and
    pr: "printed r = report (length (glob fs checkpoint_dir)) stage_counts"
    by (rule analyze_Inr)
  let ?ps = "parsed (glob fs checkpoint_dir)"
  have c: "stage_counts = summary_counts ?ps" and n: "length ?ps = length (glob fs checkpoint_dir)"
    using aggregate_summary [OF agg] by simp_all
  have total: "sum_list (map snd stage_counts) = int (length ?ps)"
    unfolding c by (rule summary_counts_sum)
  have "printed r ! 1 = ''Total checkpoints: '' @ str_int (sum_list (map snd stage_counts))"
    unfolding pr report_total total n ..
  with agg total n show ?thesis by blast
qed

text \<open>The three-file scenario of the specification: the counts 1 and 2 add up to 3.\<close>

theorem C5_counts_sum_witness:
  "\<exists>stage_counts firms_by_stage.
     aggregate
       [''/ckpt'' \<mapsto> Dir
          [(''a_checkpoint.pkl'', Pickled (Dict [(''stage'', ''embedding''), (''firm_name'', ''Acme'')])),
           (''b_checkpoint.pkl'', Pickled (Dict [(''stage'', ''topic_modeling''), (''firm_name'', ''Globex'')])),
           (''c_checkpoint.pkl'', Pickled (Dict [(''stage'', ''topic_modeling''), (''firm_name'', ''Initech'')]))]]
       ''/ckpt'' = Inr (stage_counts, firms_by_stage) \<and>
     sum_list (map snd stage_counts) = 3"
proof -
  let ?l = "[(''a_checkpoint.pkl'', Pickled (Dict [(''stage'', ''embedding''), (''firm_name'', ''Acme'')])),
           (''b_checkpoint.pkl'', Pickled (Dict [(''stage'', ''topic_modeling''), (''firm_name'', ''Globex'')])),
           (''c_checkpoint.pkl'', Pickled (Dict [(''stage'', ''topic_modeling''), (''firm_name'', ''Initech'')]))]"
  let ?fs = "[''/ckpt'' \<mapsto> Dir ?l]"
  have g: "glob ?fs ''/ckpt'' = ?l"
    by (simp add: glob_def fnmatch_checkpoint_def endswith_def)
  have "\<exists>r. analyze_all_checkpoints ?fs ''/ckpt'' = Inr r"
    by (simp add: analyze_all_checkpoints_def g process_checkpoint_def read_fields_def
          accumulate_def)
  then obtain r where "analyze_all_checkpoints ?fs ''/ckpt'' = Inr r" ..
  from C5_counts_sum_to_total [OF this] show ?thesis
    unfolding g by auto
qed

subsection \<open>C6: missing fields\<close>




subsection \<open>C9: no stage without a record\<close>

text \<open>
  Claim C9. For every scan that completes, every entry of the returned
  \<^verbatim>\<open>firms_by_stage\<close> has a non-empty firm list and every entry of \<^verbatim>\<open>stage_counts\<close>
  has a positive count: a stage becomes a key only when a record is aggregated under
  it.
\<close>

theorem C9_no_empty_stage:
  assumes "analyze_all_checkpoints fs checkpoint_dir = Inr r"
  shows "\<exists>stage_counts firms_by_stage.
           aggregate fs checkpoint_dir = Inr (stage_counts, firms_by_stage) \<and>
           returned r = py_firms firms_by_stage \<and>
           (\<forall>(stage, l)\<in>set firms_by_stage. l \<noteq> []) \<and>
           (\<forall>(stage, count)\<in>set stage_counts. 0 < count)"
proof -
  from assms obtain stage_counts firms_by_stage where
    agg: "aggregate fs checkpoint_dir = Inr (stage_counts, firms_by_stage)" and
    ret: "returned r = py_firms firms_by_stage"
    by (rule analyze_Inr)
  let ?ps = "parsed (glob fs checkpoint_dir)"
  have c: "stage_counts = summary_counts ?ps" and f: "firms_by_stage = summary_firms ?ps"
    using aggregate_summary [OF agg] by simp_all
  have "\<forall>(stage, l)\<in>set firms_by_stage. l \<noteq> []"
    unfolding f using summary_firms_nonempty by blast
  moreover have "\<forall>(stage, count)\<in>set stage_counts. 0 < count"
    unfolding c using summary_counts_positive by blast
  ultimately show ?thesis
    using agg ret by blast
qed

text \<open>Two stages, one record each, the second without a firm name.\<close>

theorem C9_no_empty_stage_witness:
  "\<exists>stage_counts firms_by_stage.
     aggregate
       [''/ckpt'' \<mapsto> Dir
          [(''a_checkpoint.pkl'', Pickled (Dict [(''stage'', ''embedding''), (''firm_name'', ''Acme'')])),
           (''b_checkpoint.pkl'', Pickled (Dict [(''stage'', ''topic_modeling'')]))]]
       ''/ckpt'' = Inr (stage_counts, firms_by_stage) \<and>
     (\<forall>(stage, l)\<in>set firms_by_stage. l \<noteq> []) \<and>
     (\<forall>(stage, count)\<in>set stage_counts. 0 < count)"
proof -
  let ?fs = "[''/ckpt'' \<mapsto> Dir
          [(''a_checkpoint.pkl'', Pickled (Dict [(''stage'', ''embedding''), (''firm_name'', ''Acme'')])),
           (''b_checkpoint.pkl'', Pickled (Dict [(''stage'', ''topic_modeling'')]))]]"
  have "\<exists>r. analyze_all_checkpoints ?fs ''/ckpt'' = Inr r"
    by (simp add: analyze_all_checkpoints_def glob_def fnmatch_checkpoint_def endswith_def
          process_checkpoint_def read_fields_def accumulate_def)
  then obtain r where "analyze_all_checkpoints ?fs ''/ckpt'' = Inr r" ..
  from C9_no_empty_stage [OF this] show ?thesis by blast
qed

subsection \<open>C10: firm names are not deduplicated\<close>

text \<open>
  Claim C10. For every scan that completes and every two distinct matched files (at
  positions \<open>i < j\<close> of the listing) whose records carry the same stage and the same
  firm name, that name occurs at least twice in the stage's firm list, in fact as often
  as there are records with that stage and name, and the stage's count is the number of
  all records of the stage, both included.
\<close>

theorem C10_no_deduplication:
  assumes "analyze_all_checkpoints fs checkpoint_dir = Inr r"
    and "i < j" and "j < length (glob fs checkpoint_dir)"
    and "read_fields (snd (glob fs checkpoint_dir ! i)) = Inr (stage, firm)"
    and "read_fields (snd (glob fs checkpoint_dir ! j)) = Inr (stage, firm)"
  shows "\<exists>stage_counts firms_by_stage l.
           aggregate fs checkpoint_dir = Inr (stage_counts, firms_by_stage) \<and>
           returned r = py_firms firms_by_stage \<and>
           map_of firms_by_stage stage = Some l \<and>
           2 \<le> count_list l firm \<and>
           count_list l firm =
             length (filter (\<lambda>p. p = (stage, firm)) (parsed (glob fs checkpoint_dir))) \<and>
           map_of stage_counts stage = Some (int (length l)) \<and>
           length l = length (filter (\<lambda>p. fst p = stage) (parsed (glob fs checkpoint_dir)))"
proof -
  from assms(1) obtain stage_counts firms_by_stage where
    agg: "aggregate fs checkpoint_dir = Inr (stage_counts, firms_by_stage)" and
    ret: "returned r = py_firms firms_by_stage"
    by (rule analyze_Inr)
  let ?cps = "glob fs checkpoint_dir"
  let ?ps = "parsed ?cps"
  let ?l = "map snd (filter (\<lambda>p. fst p = stage) ?ps)"
  have c: "stage_counts = summary_counts ?ps" and f: "firms_by_stage = summary_firms ?ps"
    using aggregate_summary [OF agg] by simp_all
  have ok: "\<forall>cp\<in>set ?cps. \<not> isl (read_fields (snd cp))"
    using agg scan_completed unfolding aggregate_def by blast
  have pm: "?ps = map (\<lambda>cp. projr (read_fields (snd cp))) ?cps"
    using ok by (rule parsed_map)
  have len: "length ?ps = length ?cps"
    using ok by (rule parsed_length)
  have pi: "?ps ! i = (stage, firm)" and pj: "?ps ! j = (stage, firm)"
    using assms(2-5) by (simp_all add: pm)
  have twice: "2 \<le> length (filter (\<lambda>p. p = (stage, firm)) ?ps)"
    using assms(2) _ pi pj by (rule filter_twice) (simp add: len assms(3))
  have "(stage, firm) \<in> set ?ps"
    using pj assms(3) len by (metis nth_mem)
  then have dom: "stage \<in> fst ` set ?ps"
    by force
  have fl: "map_of firms_by_stage stage = Some ?l"
    unfolding f using dom by (simp add: map_of_summary_firms)
  have cl: "map_of stage_counts stage = Some (int (length ?l))"
    unfolding c using dom by (simp add: map_of_summary_counts)
  have cnt: "count_list ?l firm = length (filter (\<lambda>p. p = (stage, firm)) ?ps)"
    by (rule count_list_grouped)
  have "2 \<le> count_list ?l firm"
    using twice cnt by simp
  then show ?thesis
    using agg ret fl cl cnt by (intro exI [of _ stage_counts] exI [of _ firms_by_stage] exI [of _ ?l]) simp
qed

text \<open>The same record under two file names.\<close>

theorem C10_no_deduplication_witness:
  "\<exists>stage_counts firms_by_stage l.
     aggregate
       [''/ckpt'' \<mapsto> Dir
          [(''a_checkpoint.pkl'', Pickled (Dict [(''stage'', ''embedding''), (''firm_name'', ''Acme'')])),
           (''b_checkpoint.pkl'', Pickled (Dict [(''stage'', ''embedding''), (''firm_name'', ''Acme'')]))]]
       ''/ckpt'' = Inr (stage_counts, firms_by_stage) \<and>
     map_of firms_by_stage ''embedding'' = Some l \<and>
     2 \<le> count_list l ''Acme'' \<and>
     map_of stage_counts ''embedding'' = Some (int (length l))"
proof -
  let ?l = "[(''a_checkpoint.pkl'', Pickled (Dict [(''stage'', ''embedding''), (''firm_name'', ''Acme'')])),
           (''b_checkpoint.pkl'', Pickled (Dict [(''stage'', ''embedding''), (''firm_name'', ''Acme'')]))]"
  let ?fs = "[''/ckpt'' \<mapsto> Dir ?l]"
  have g: "glob ?fs ''/ckpt'' = ?l"
    by (simp add: glob_def fnmatch_checkpoint_def endswith_def)
  have "\<exists>r. analyze_all_checkpoints ?fs ''/ckpt'' = Inr r"
    by (simp add: analyze_all_checkpoints_def g process_checkpoint_def read_fields_def
          accumulate_def)
  then obtain r where r: "analyze_all_checkpoints ?fs ''/ckpt'' = Inr r" ..
  have j: "1 < length (glob ?fs ''/ckpt'')"
    unfolding g by simp
  have ri: "read_fields (snd (glob ?fs ''/ckpt'' ! 0)) = Inr (''embedding'', ''Acme'')"
    unfolding g by (simp add: read_fields_def)
  have rj: "read_fields (snd (glob ?fs ''/ckpt'' ! 1)) = Inr (''embedding'', ''Acme'')"
    unfolding g by (simp add: read_fields_def)
  from C10_no_deduplication [OF r zero_less_one j ri rj] show ?thesis
    by blast
qed

end
